theory Spec2Isabelle
  imports Main "HOL-Library.AList"
begin

section \<open>Data model\<close>

text \<open>
  The exceptions that the library raises or that reach it from pandas.  The two library
  errors carry the context that the source formats into their message: the subject
  (\<open>''OHLCV''\<close> or a factor's full name) and the ticker.
\<close>

datatype error =
    FileNotFoundError
  | ParquetError
  | KeyError
  | ValueError
  | IndexError
  | DataLoadError string string
  | FactorNotFoundError string string

text \<open>
  A cell of a table is a value or the missing marker.  Row labels are either positions of
  a default range index or dates (ordinal day numbers).
\<close>

datatype cell = NaN | Val int

datatype label = Pos nat | Day int

type_synonym series = "(label \<times> cell) list"

text \<open>
  The content of one parquet resource as \<open>pd.read_parquet\<close> returns it: the stored row
  labels, the \<open>date\<close> column when the file has one, and the other columns by name.
\<close>

record pframe =
  findex :: "label list"
  fdate :: "int list option"
  fcols :: "(string \<times> cell list) list"

datatype resource = NotFound | Corrupt | Parquet pframe

type_synonym fs = "string \<Rightarrow> resource"

text \<open>A frame after \<open>set_index("date")\<close>: the dates and the selected columns.\<close>

record iframe =
  idates :: "int list"
  icols :: "(string \<times> cell list) list"

text \<open>The wide table: a date index and columns labelled by (factor, ticker) pairs.\<close>

type_synonym columns = "((string \<times> string) \<times> cell list) list"

record wide =
  windex :: "int list"
  wcols :: columns

text \<open>The orchestrator \<open>Vquant\<close>; \<open>get_path\<close> is the method of its storage adapter.\<close>

record vquant =
  market :: string
  base_url :: string
  timeframe :: string
  get_path :: "string \<Rightarrow> string \<Rightarrow> string \<Rightarrow> string \<Rightarrow> string \<Rightarrow> string \<Rightarrow> string"

definition DefaultStorageAdapter_get_path ::
  "string \<Rightarrow> string \<Rightarrow> string \<Rightarrow> string \<Rightarrow> string \<Rightarrow> string \<Rightarrow> string" where
  "DefaultStorageAdapter_get_path base mkt instrument tf category name =
     base @ ''/data/dim/'' @ mkt @ ''/instrument/'' @ instrument @ ''/'' @ tf @ ''/''
       @ name @ ''.parquet''"

section \<open>pandas operations used by the orchestrator\<close>

definition read_parquet :: "fs \<Rightarrow> string \<Rightarrow> error + pframe" where
  "read_parquet files path =
     (case files path of
        NotFound \<Rightarrow> Inl FileNotFoundError
      | Corrupt \<Rightarrow> Inl ParquetError
      | Parquet f \<Rightarrow> Inr f)"

text \<open>\<open>df[cols]\<close>: every requested column must exist, else \<open>KeyError\<close>.\<close>

fun take_cols :: "(string \<times> cell list) list \<Rightarrow> string list \<Rightarrow> error + (string \<times> cell list) list" where
  "take_cols fc [] = Inr []"
| "take_cols fc (c # cs) =
     (case map_of fc c of
        None \<Rightarrow> Inl KeyError
      | Some v \<Rightarrow> (case take_cols fc cs of Inl e \<Rightarrow> Inl e | Inr r \<Rightarrow> Inr ((c, v) # r)))"

text \<open>
  \<open>df[["date"] + cols].set_index("date")\<close>.  Asking for \<open>date\<close> among \<open>cols\<close> selects the
  label twice and \<open>set_index\<close> rejects the two-dimensional key.
\<close>

definition select_indexed :: "string list \<Rightarrow> pframe \<Rightarrow> error + iframe" where
  "select_indexed cols f =
     (case fdate f of
        None \<Rightarrow> Inl KeyError
      | Some ds \<Rightarrow>
          if ''date'' \<in> set cols then Inl ValueError
          else (case take_cols (fcols f) cols of
                  Inl e \<Rightarrow> Inl e
                | Inr cs \<Rightarrow> Inr \<lparr>idates = ds, icols = cs\<rparr>))"

text \<open>\<open>Series.unique()\<close> keeps the first occurrence of every value.\<close>

fun unique :: "'a list \<Rightarrow> 'a list" where
  "unique [] = []"
| "unique (x # xs) = x # unique (removeAll x xs)"

text \<open>
  \<open>pd.concat\<close> of the index series, \<open>unique()\<close>, \<open>sorted\<close>.  \<open>pd.concat\<close> of an empty list
  raises \<open>ValueError\<close>.
\<close>

definition unified_dates :: "int list list \<Rightarrow> error + int list" where
  "unified_dates idxs =
     (if idxs = [] then Inl ValueError else Inr (sort (unique (concat idxs))))"

fun position :: "'a \<Rightarrow> 'a list \<Rightarrow> nat option" where
  "position d [] = None"
| "position d (x # xs) =
     (if x = d then Some 0 else (case position d xs of None \<Rightarrow> None | Some i \<Rightarrow> Some (Suc i)))"

definition cell_at :: "cell list \<Rightarrow> nat \<Rightarrow> cell" where
  "cell_at vals i = (if i < length vals then vals ! i else NaN)"

text \<open>Reindexing one column: a target label absent from the source gives the missing marker.\<close>

definition reindex_col :: "'a list \<Rightarrow> cell list \<Rightarrow> 'a list \<Rightarrow> cell list" where
  "reindex_col src vals target =
     map (\<lambda>d. case position d src of None \<Rightarrow> NaN | Some i \<Rightarrow> cell_at vals i) target"

text \<open>\<open>DataFrame.reindex\<close> raises \<open>ValueError\<close> on an axis with duplicate labels.\<close>

definition reindex_frame :: "iframe \<Rightarrow> int list \<Rightarrow> error + iframe" where
  "reindex_frame df target =
     (if distinct (idates df)
      then Inr \<lparr>idates = target,
                icols = map (\<lambda>(c, v). (c, reindex_col (idates df) v target)) (icols df)\<rparr>
      else Inl ValueError)"

text \<open>
  \<open>df[col]\<close> is a series when the label occurs once; when it occurs several times it is a
  frame, which cannot be assigned to a single column.
\<close>

definition get_series :: "iframe \<Rightarrow> string \<Rightarrow> error + cell list" where
  "get_series df c =
     (case filter (\<lambda>p. fst p = c) (icols df) of
        [] \<Rightarrow> Inl KeyError
      | [p] \<Rightarrow> Inr (snd p)
      | _ \<Rightarrow> Inl ValueError)"

text \<open>\<open>pd.MultiIndex.from_product([xs, ys])\<close>: the first level varies slowest.\<close>

definition from_product :: "'a list \<Rightarrow> 'b list \<Rightarrow> ('a \<times> 'b) list" where
  "from_product xs ys = concat (map (\<lambda>x. map (\<lambda>y. (x, y)) ys) xs)"

text \<open>\<open>df.columns = labels\<close> relabels the columns by position and checks the length.\<close>

definition set_columns :: "columns \<Rightarrow> (string \<times> string) list \<Rightarrow> error + columns" where
  "set_columns cs labels =
     (if length labels = length cs then Inr (zip labels (map snd cs)) else Inl ValueError)"

section \<open>Vquant.get_ohlcv\<close>

definition ohlcv_path :: "vquant \<Rightarrow> string \<Rightarrow> string" where
  "ohlcv_path vq ticker =
     get_path vq (base_url vq) (market vq) ticker (timeframe vq) ''ohlcv'' ''ohlcv''"

text \<open>The body of the \<open>try\<close> block of the loading loop.\<close>

definition load_ohlcv :: "vquant \<Rightarrow> fs \<Rightarrow> string list \<Rightarrow> string \<Rightarrow> error + iframe" where
  "load_ohlcv vq files cols ticker =
     (case read_parquet files (ohlcv_path vq ticker) of
        Inl e \<Rightarrow> Inl e
      | Inr f \<Rightarrow> select_indexed cols f)"

text \<open>
  The loading loop, shared by \<open>get_ohlcv\<close> and \<open>get_factors\<close>, which differ only in the
  body \<open>load\<close> of the \<open>try\<close> block; \<open>result\<close> is the dictionary, in insertion order.
  Any exception of the body is raised again as \<open>DataLoadError\<close> for the ticker at hand.
\<close>

fun load_loop ::
  "(string \<Rightarrow> error + iframe) \<Rightarrow> string list \<Rightarrow> (string \<times> iframe) list
     \<Rightarrow> error + (string \<times> iframe) list" where
  "load_loop load [] result = Inr result"
| "load_loop load (t # ts) result =
     (case load t of
        Inl e \<Rightarrow> Inl (DataLoadError ''OHLCV'' t)
      | Inr df \<Rightarrow> load_loop load ts (AList.update t df result))"

text \<open>The inner loop \<open>aligned_data[(col, ticker)] = df[col]\<close>: a new key is appended.\<close>

fun fill_cols :: "iframe \<Rightarrow> string \<Rightarrow> string list \<Rightarrow> columns \<Rightarrow> error + columns" where
  "fill_cols df ticker [] acc = Inr acc"
| "fill_cols df ticker (c # cs) acc =
     (case get_series df c of
        Inl e \<Rightarrow> Inl e
      | Inr v \<Rightarrow> fill_cols df ticker cs (AList.update (c, ticker) v acc))"

fun fill_tickers ::
  "(string \<times> iframe) list \<Rightarrow> int list \<Rightarrow> string list \<Rightarrow> string list \<Rightarrow> columns
     \<Rightarrow> error + columns" where
  "fill_tickers result all_dates cols [] acc = Inr acc"
| "fill_tickers result all_dates cols (t # ts) acc =
     (case map_of result t of
        None \<Rightarrow> Inl KeyError
      | Some df0 \<Rightarrow>
          (case reindex_frame df0 all_dates of
             Inl e \<Rightarrow> Inl e
           | Inr df \<Rightarrow>
               (case fill_cols df t cols acc of
                  Inl e \<Rightarrow> Inl e
                | Inr acc' \<Rightarrow> fill_tickers result all_dates cols ts acc')))"

definition get_ohlcv :: "vquant \<Rightarrow> fs \<Rightarrow> string list \<Rightarrow> string list \<Rightarrow> error + wide" where
  "get_ohlcv vq files tickers cols =
     (case load_loop (load_ohlcv vq files cols) tickers [] of
        Inl e \<Rightarrow> Inl e
      | Inr result \<Rightarrow>
          (case unified_dates (map (\<lambda>p. idates (snd p)) result) of
             Inl e \<Rightarrow> Inl e
           | Inr all_dates \<Rightarrow>
               (case fill_tickers result all_dates cols tickers [] of
                  Inl e \<Rightarrow> Inl e
                | Inr aligned_data \<Rightarrow>
                    (case set_columns aligned_data (from_product cols tickers) of
                       Inl e \<Rightarrow> Inl e
                     | Inr cs \<Rightarrow> Inr \<lparr>windex = all_dates, wcols = cs\<rparr>))))"

section \<open>Factors\<close>

text \<open>\<open>Factor.full_name\<close>: category, a dot, name.\<close>

definition full_name_of :: "string \<Rightarrow> string \<Rightarrow> string" where
  "full_name_of category name = category @ ''.'' @ name"

text \<open>
  \<open>StoredFactor.fetch\<close>: the \<open>value\<close> column of the resource, with the row labels the
  file carries.  A missing resource is \<open>FactorNotFoundError\<close>, any other failure is
  \<open>DataLoadError\<close>.
\<close>

definition StoredFactor_fetch ::
  "vquant \<Rightarrow> fs \<Rightarrow> string \<Rightarrow> string \<Rightarrow> string \<Rightarrow> error + series" where
  "StoredFactor_fetch vq files name category ticker =
     (case read_parquet files
             (get_path vq (base_url vq) (market vq) ticker (timeframe vq) category name) of
        Inl e \<Rightarrow>
          (if e = FileNotFoundError
           then Inl (FactorNotFoundError (full_name_of category name) ticker)
           else Inl (DataLoadError (full_name_of category name) ticker))
      | Inr f \<Rightarrow>
          (case map_of (fcols f) ''value'' of
             None \<Rightarrow> Inl (DataLoadError (full_name_of category name) ticker)
           | Some v \<Rightarrow> Inr (zip (findex f) v)))"

text \<open>
  The two variants of \<open>Factor\<close>, with the constructor arguments in the source's order:
  name, category, and for a computed factor the transform and the dependency names.
\<close>

datatype factor =
    StoredFactor string string
  | ComputedFactor string string "wide \<Rightarrow> error + series" "string list"

fun factor_name :: "factor \<Rightarrow> string" where
  "factor_name (StoredFactor n c) = n"
| "factor_name (ComputedFactor n c fn deps) = n"

fun factor_category :: "factor \<Rightarrow> string" where
  "factor_category (StoredFactor n c) = c"
| "factor_category (ComputedFactor n c fn deps) = c"

definition full_name :: "factor \<Rightarrow> string" where
  "full_name f = full_name_of (factor_category f) (factor_name f)"

text \<open>
  \<open>ComputedFactor.__init__\<close>: \<open>dependencies or ["ohlcv.close"]\<close>, so both \<open>None\<close> and the
  empty list give the default.
\<close>

definition ComputedFactor_init ::
  "string \<Rightarrow> string \<Rightarrow> (wide \<Rightarrow> error + series) \<Rightarrow> string list option \<Rightarrow> factor" where
  "ComputedFactor_init name category fn dependencies =
     ComputedFactor name category fn
       (case dependencies of
          None \<Rightarrow> [''ohlcv.close'']
        | Some ds \<Rightarrow> if ds = [] then [''ohlcv.close''] else ds)"

section \<open>Factor specifications\<close>

datatype spec = Str string | Fac factor

text \<open>\<open>f.split(".", 1)\<close>: at most one split, at the first dot.\<close>

definition split_dot1 :: "string \<Rightarrow> string list" where
  "split_dot1 f =
     (if CHR ''.'' \<in> set f
      then [takeWhile (\<lambda>c. c \<noteq> CHR ''.'') f, tl (dropWhile (\<lambda>c. c \<noteq> CHR ''.'') f)]
      else [f])"

text \<open>
  The resolution of a string in \<open>get_factors\<close>, giving the arguments (name, category) of
  the \<open>StoredFactor\<close> it builds.  Unpacking a list that has not two elements raises
  \<open>ValueError\<close>.
\<close>

definition resolve_str :: "string \<Rightarrow> error + (string \<times> string)" where
  "resolve_str f =
     (if CHR ''.'' \<in> set f
      then (case split_dot1 f of
              [category, name] \<Rightarrow> Inr (name, category)
            | _ \<Rightarrow> Inl ValueError)
      else Inr (f, ''technical''))"

fun resolve_strs :: "string list \<Rightarrow> error + (string \<times> string) list" where
  "resolve_strs [] = Inr []"
| "resolve_strs (f # fs) =
     (case resolve_str f of
        Inl e \<Rightarrow> Inl e
      | Inr r \<Rightarrow> (case resolve_strs fs of Inl e \<Rightarrow> Inl e | Inr rs \<Rightarrow> Inr (r # rs)))"

fun resolve_spec :: "spec \<Rightarrow> error + factor" where
  "resolve_spec (Str f) =
     (case resolve_str f of Inl e \<Rightarrow> Inl e | Inr (n, c) \<Rightarrow> Inr (StoredFactor n c))"
| "resolve_spec (Fac f) = Inr f"

fun resolve_specs :: "spec list \<Rightarrow> error + factor list" where
  "resolve_specs [] = Inr []"
| "resolve_specs (f # fs) =
     (case resolve_spec f of
        Inl e \<Rightarrow> Inl e
      | Inr r \<Rightarrow> (case resolve_specs fs of Inl e \<Rightarrow> Inl e | Inr rs \<Rightarrow> Inr (r # rs)))"

section \<open>Vquant.get_factors\<close>

text \<open>The body of the \<open>try\<close> block that loads the base OHLCV data: every column is kept.\<close>

definition load_base :: "vquant \<Rightarrow> fs \<Rightarrow> string \<Rightarrow> error + iframe" where
  "load_base vq files ticker =
     (case read_parquet files (ohlcv_path vq ticker) of
        Inl e \<Rightarrow> Inl e
      | Inr f \<Rightarrow>
          (case fdate f of
             None \<Rightarrow> Inl KeyError
           | Some ds \<Rightarrow> Inr \<lparr>idates = ds, icols = fcols f\<rparr>))"

text \<open>\<open>series.reindex(all_dates)\<close>; the target labels are dates.\<close>

definition reindex_series :: "series \<Rightarrow> int list \<Rightarrow> error + cell list" where
  "reindex_series s target =
     (if distinct (map fst s)
      then Inr (reindex_col (map fst s) (map snd s) (map Day target))
      else Inl ValueError)"

text \<open>
  \<open>result_df[key] = values\<close>: every column that carries the label is overwritten; a label
  that no column carries is appended.
\<close>

definition assign_col :: "string \<times> string \<Rightarrow> cell list \<Rightarrow> columns \<Rightarrow> columns" where
  "assign_col key v cs =
     (if key \<in> set (map fst cs)
      then map (\<lambda>p. if fst p = key then (key, v) else p) cs
      else cs @ [(key, v)])"

text \<open>
  The inner loop over the resolved factors.  The orchestrator uses a factor only through
  its \<open>full_name\<close> and its \<open>fetch\<close> method, here the parameters \<open>fname\<close> and \<open>ffetch\<close>.
  Whatever the \<open>try\<close> block raises is raised again as \<open>FactorNotFoundError\<close>.
\<close>

fun fetch_loop ::
  "('f \<Rightarrow> string) \<Rightarrow> ('f \<Rightarrow> string \<Rightarrow> error + series) \<Rightarrow> int list \<Rightarrow> string \<Rightarrow> 'f list
     \<Rightarrow> columns \<Rightarrow> error + columns" where
  "fetch_loop fname ffetch all_dates ticker [] acc = Inr acc"
| "fetch_loop fname ffetch all_dates ticker (f # fs) acc =
     (case ffetch f ticker of
        Inl e \<Rightarrow> Inl (FactorNotFoundError (fname f) ticker)
      | Inr s \<Rightarrow>
          (case reindex_series s all_dates of
             Inl e \<Rightarrow> Inl (FactorNotFoundError (fname f) ticker)
           | Inr v \<Rightarrow>
               fetch_loop fname ffetch all_dates ticker fs (assign_col (fname f, ticker) v acc)))"

text \<open>
  The outer loop over the tickers.  \<open>base_df\<close> is computed outside the \<open>try\<close> block and
  not used afterwards; its \<open>reindex\<close> can still raise.
\<close>

fun ticker_loop ::
  "('f \<Rightarrow> string) \<Rightarrow> ('f \<Rightarrow> string \<Rightarrow> error + series) \<Rightarrow> (string \<times> iframe) list \<Rightarrow> int list
     \<Rightarrow> 'f list \<Rightarrow> string list \<Rightarrow> columns \<Rightarrow> error + columns" where
  "ticker_loop fname ffetch base_data all_dates factors [] acc = Inr acc"
| "ticker_loop fname ffetch base_data all_dates factors (t # ts) acc =
     (case map_of base_data t of
        None \<Rightarrow> Inl KeyError
      | Some df0 \<Rightarrow>
          (case reindex_frame df0 all_dates of
             Inl e \<Rightarrow> Inl e
           | Inr base_df \<Rightarrow>
               (case fetch_loop fname ffetch all_dates t factors acc of
                  Inl e \<Rightarrow> Inl e
                | Inr acc' \<Rightarrow> ticker_loop fname ffetch base_data all_dates factors ts acc')))"

text \<open>\<open>get_factors\<close> from the line after the resolution of the specifications.\<close>

definition get_factors_body ::
  "('f \<Rightarrow> string) \<Rightarrow> ('f \<Rightarrow> string \<Rightarrow> error + series) \<Rightarrow> vquant \<Rightarrow> fs \<Rightarrow> string list
     \<Rightarrow> 'f list \<Rightarrow> error + wide" where
  "get_factors_body fname ffetch vq files tickers resolved_factors =
     (let factor_names = map fname resolved_factors;
          multi_columns = from_product factor_names tickers
      in case load_loop (load_base vq files) tickers [] of
           Inl e \<Rightarrow> Inl e
         | Inr base_data \<Rightarrow>
             (case unified_dates (map (\<lambda>p. idates (snd p)) base_data) of
                Inl e \<Rightarrow> Inl e
              | Inr all_dates \<Rightarrow>
                  (case ticker_loop fname ffetch base_data all_dates resolved_factors tickers
                          (map (\<lambda>k. (k, replicate (length all_dates) NaN)) multi_columns) of
                     Inl e \<Rightarrow> Inl e
                   | Inr cs \<Rightarrow> Inr \<lparr>windex = all_dates, wcols = cs\<rparr>)))"

text \<open>
  The dependencies of a computed factor are strings, so the call of \<open>get_factors\<close> that
  \<open>ComputedFactor.fetch\<close> makes resolves every specification to a stored factor: the
  recursion between \<open>get_factors\<close> and \<open>fetch\<close> ends after one round.  \<open>get_factors_strs\<close>
  is \<open>get_factors\<close> on a list of strings.
\<close>

definition stored_full_name :: "string \<times> string \<Rightarrow> string" where
  "stored_full_name nc = full_name_of (snd nc) (fst nc)"

definition get_factors_strs :: "vquant \<Rightarrow> fs \<Rightarrow> string list \<Rightarrow> string list \<Rightarrow> error + wide" where
  "get_factors_strs vq files tickers factors =
     (case resolve_strs factors of
        Inl e \<Rightarrow> Inl e
      | Inr resolved_factors \<Rightarrow>
          get_factors_body stored_full_name
            (\<lambda>nc ticker. StoredFactor_fetch vq files (fst nc) (snd nc) ticker)
            vq files tickers resolved_factors)"

fun fetch :: "vquant \<Rightarrow> fs \<Rightarrow> factor \<Rightarrow> string \<Rightarrow> error + series" where
  "fetch vq files (StoredFactor name category) ticker =
     StoredFactor_fetch vq files name category ticker"
| "fetch vq files (ComputedFactor name category fn dependencies) ticker =
     (case get_factors_strs vq files [ticker] dependencies of
        Inl e \<Rightarrow> Inl e
      | Inr dep_data \<Rightarrow> fn dep_data)"

definition get_factors :: "vquant \<Rightarrow> fs \<Rightarrow> string list \<Rightarrow> spec list \<Rightarrow> error + wide" where
  "get_factors vq files tickers factors =
     (case resolve_specs factors of
        Inl e \<Rightarrow> Inl e
      | Inr resolved_factors \<Rightarrow>
          get_factors_body full_name (fetch vq files) vq files tickers resolved_factors)"

text \<open>
  The dates of the OHLCV resource of a ticker, as \<open>get_factors\<close> loads it; no dates when
  it does not load.
\<close>

definition ohlcv_dates :: "vquant \<Rightarrow> fs \<Rightarrow> string \<Rightarrow> int list" where
  "ohlcv_dates vq files ticker =
     (case load_base vq files ticker of Inl e \<Rightarrow> [] | Inr df \<Rightarrow> idates df)"

section \<open>Signal\<close>

record signal =
  signal_name :: string
  signal_factors :: "factor list"
  signal_condition :: "wide \<Rightarrow> error + series"

text \<open>Python's \<open>xs[i]\<close> for a non-negative index.\<close>

definition py_index :: "'a list \<Rightarrow> nat \<Rightarrow> error + 'a" where
  "py_index xs i = (if i < length xs then Inr (xs ! i) else Inl IndexError)"

text \<open>
  One element of the list comprehension of \<open>Signal.__init__\<close>: for a string,
  \<open>StoredFactor(f.split(".", 1)[1], f.split(".", 1)[0])\<close>, the arguments evaluated from
  left to right.
\<close>

fun signal_factor :: "spec \<Rightarrow> error + factor" where
  "signal_factor (Str f) =
     (case py_index (split_dot1 f) 1 of
        Inl e \<Rightarrow> Inl e
      | Inr name \<Rightarrow>
          (case py_index (split_dot1 f) 0 of
             Inl e \<Rightarrow> Inl e
           | Inr category \<Rightarrow> Inr (StoredFactor name category)))"
| "signal_factor (Fac f) = Inr f"

fun signal_factor_list :: "spec list \<Rightarrow> error + factor list" where
  "signal_factor_list [] = Inr []"
| "signal_factor_list (f # fs) =
     (case signal_factor f of
        Inl e \<Rightarrow> Inl e
      | Inr r \<Rightarrow> (case signal_factor_list fs of Inl e \<Rightarrow> Inl e | Inr rs \<Rightarrow> Inr (r # rs)))"

definition Signal_init ::
  "string \<Rightarrow> spec list \<Rightarrow> (wide \<Rightarrow> error + series) \<Rightarrow> error + signal" where
  "Signal_init name factors condition =
     (case signal_factor_list factors of
        Inl e \<Rightarrow> Inl e
      | Inr fs \<Rightarrow>
          Inr \<lparr>signal_name = name, signal_factors = fs, signal_condition = condition\<rparr>)"

section \<open>Incremental-merge storage\<close>

text \<open>
  A stored record set: rows of a date and the values by column name.
\<close>

type_synonym row = "int \<times> (string \<rightharpoonup> cell)"

text \<open>The values of the last row of a table that carries the date \<open>d\<close>.\<close>

fun latest :: "int \<Rightarrow> row list \<Rightarrow> (string \<rightharpoonup> cell) option" where
  "latest d [] = None"
| "latest d (r # rs) =
     (case latest d rs of
        Some x \<Rightarrow> Some x
      | None \<Rightarrow> if fst r = d then Some (snd r) else None)"

text \<open>
  Modelled from the spec: the upsert of \<open>FactorStorage.save_factor\<close>, whose code is not
  among the sources (only its test is).  Rows of the existing content whose date occurs in
  the new data take the new values on the columns the new data carries; the other
  existing rows are kept; rows of the new data whose date the existing content lacks are
  appended.
\<close>

definition upsert :: "row list \<Rightarrow> row list \<Rightarrow> row list" where
  "upsert existing newData =
     map (\<lambda>r. (fst r, case latest (fst r) newData of None \<Rightarrow> snd r | Some n \<Rightarrow> snd r ++ n))
       existing
     @ filter (\<lambda>r. fst r \<notin> fst ` set existing) newData"

text \<open>
  Modelled from the spec: the deduplication of the merged result, one row per date; of
  several rows with one date the last is kept.
\<close>

fun dedup_last :: "row list \<Rightarrow> row list" where
  "dedup_last [] = []"
| "dedup_last (r # rs) =
     (if fst r \<in> fst ` set rs then dedup_last rs else r # dedup_last rs)"

text \<open>
  Modelled from the spec: \<open>FactorStorage.save_factor\<close> on the content of the target
  resource (\<open>None\<close> when it does not exist).  A missing resource receives the new data as
  it is; an existing one is upserted, deduplicated, sorted ascending by date and
  rewritten.
\<close>

definition save_factor :: "row list \<Rightarrow> row list option \<Rightarrow> row list option" where
  "save_factor newData content =
     (case content of
        None \<Rightarrow> Some newData
      | Some existing \<Rightarrow> Some (sort_key fst (dedup_last (upsert existing newData))))"

section \<open>A small market for the examples\<close>

definition example_vq :: vquant where
  "example_vq =
     \<lparr>market = ''vn'', base_url = ''gs'', timeframe = ''1d'',
      get_path = DefaultStorageAdapter_get_path\<rparr>"

text \<open>
  Tickers \<open>A\<close> and \<open>B\<close> have OHLCV data, on the dates 1, 2 and 2, 3, and a stored
  \<open>close\<close> factor each.  \<open>A\<close> has a corrupt \<open>rsi_14\<close> resource; \<open>B\<close> has an \<open>rsi_14\<close> factor on the
  dates 2 and 5; \<open>C\<close> has an \<open>rsi_14\<close> factor and no OHLCV data.
\<close>

definition example_files :: fs where
  "example_files path =
     (if path = ''gs/data/dim/vn/instrument/A/1d/ohlcv.parquet''
      then Parquet \<lparr>findex = [Pos 0, Pos 1], fdate = Some [1, 2],
                    fcols = [(''open'', [Val 10, Val 11]), (''close'', [Val 12, Val 13])]\<rparr>
      else if path = ''gs/data/dim/vn/instrument/B/1d/ohlcv.parquet''
      then Parquet \<lparr>findex = [Pos 0, Pos 1], fdate = Some [2, 3],
                    fcols = [(''open'', [Val 20, Val 21]), (''close'', [Val 22, Val 23])]\<rparr>
      else if path = ''gs/data/dim/vn/instrument/A/1d/close.parquet''
      then Parquet \<lparr>findex = [Day 1, Day 2], fdate = None,
                    fcols = [(''value'', [Val 12, Val 13])]\<rparr>
      else if path = ''gs/data/dim/vn/instrument/B/1d/close.parquet''
      then Parquet \<lparr>findex = [Day 2, Day 3], fdate = None,
                    fcols = [(''value'', [Val 22, Val 23])]\<rparr>
      else if path = ''gs/data/dim/vn/instrument/A/1d/rsi_14.parquet''
      then Corrupt
      else if path = ''gs/data/dim/vn/instrument/B/1d/rsi_14.parquet''
      then Parquet \<lparr>findex = [Day 2, Day 5], fdate = None,
                    fcols = [(''value'', [Val 50, Val 55])]\<rparr>
      else if path = ''gs/data/dim/vn/instrument/C/1d/rsi_14.parquet''
      then Parquet \<lparr>findex = [Day 1], fdate = None, fcols = [(''value'', [Val 40])]\<rparr>
      else NotFound)"

text \<open>A transform for the examples: the last column of the dependency table.\<close>

definition example_transform :: "wide \<Rightarrow> error + series" where
  "example_transform dep_data =
     (case rev (wcols dep_data) of
        [] \<Rightarrow> Inl KeyError
      | c # cs \<Rightarrow> Inr (zip (map Day (windex dep_data)) (snd c)))"

section \<open>Factor strings\<close>

lemma split_dot1_dotted:
  "CHR ''.'' \<in> set f \<Longrightarrow> \<exists>c n. split_dot1 f = [c, n] \<and> f = c @ ''.'' @ n \<and> CHR ''.'' \<notin> set c"
proof -
  assume d: "CHR ''.'' \<in> set f"
  let ?c = "takeWhile (\<lambda>c. c \<noteq> CHR ''.'') f"
  let ?r = "dropWhile (\<lambda>c. c \<noteq> CHR ''.'') f"
  from d have ne: "?r \<noteq> []" by (simp add: dropWhile_eq_Nil_conv) 
  then have "hd ?r = CHR ''.''" using hd_dropWhile[of "\<lambda>c. c \<noteq> CHR ''.''" f] by simp
  with ne have r: "?r = CHR ''.'' # tl ?r" by (metis list.collapse)
  have "f = ?c @ ?r" by simp
  with r have "f = ?c @ ''.'' @ tl ?r" by simp
  moreover have "CHR ''.'' \<notin> set ?c" by (auto dest: set_takeWhileD)
  ultimately show ?thesis using d by (auto simp: split_dot1_def)
qed

lemma resolve_str_total: "\<exists>nc. resolve_str f = Inr nc"
  using split_dot1_dotted[of f] by (auto simp: resolve_str_def)

text \<open>
  Claim C6.  A factor string that contains a dot resolves to the stored factor whose
  category is the part before the first dot and whose name is the rest, and the full name
  of that factor is the string itself; a string without a dot resolves to the category
  \<open>technical\<close> with the whole string as name.
\<close>

theorem factor_name_parsing:
  "(CHR ''.'' \<in> set f \<longrightarrow>
      (\<exists>category name. resolve_spec (Str f) = Inr (StoredFactor name category)
         \<and> f = category @ ''.'' @ name \<and> CHR ''.'' \<notin> set category
         \<and> full_name (StoredFactor name category) = f))
   \<and> (CHR ''.'' \<notin> set f \<longrightarrow> resolve_spec (Str f) = Inr (StoredFactor f ''technical''))"
proof (intro conjI impI)
  assume d: "CHR ''.'' \<in> set f"
  then obtain c n where s: "split_dot1 f = [c, n]" "f = c @ ''.'' @ n" "CHR ''.'' \<notin> set c"
    using split_dot1_dotted by blast
  from d s(1) have "resolve_spec (Str f) = Inr (StoredFactor n c)"
    by (simp add: resolve_str_def)
  moreover have "full_name (StoredFactor n c) = f"
    using s(2) by (simp add: full_name_def full_name_of_def)
  ultimately show "\<exists>category name. resolve_spec (Str f) = Inr (StoredFactor name category)
         \<and> f = category @ ''.'' @ name \<and> CHR ''.'' \<notin> set category
         \<and> full_name (StoredFactor name category) = f"
    using s by blast
next
  assume "CHR ''.'' \<notin> set f"
  then show "resolve_spec (Str f) = Inr (StoredFactor f ''technical'')"
    by (simp add: resolve_str_def)
qed

theorem factor_name_parsing_witness:
  "resolve_spec (Str ''technical.rsi_14'') = Inr (StoredFactor ''rsi_14'' ''technical'')
   \<and> full_name (StoredFactor ''rsi_14'' ''technical'') = ''technical.rsi_14''
   \<and> resolve_spec (Str ''rsi_14'') = Inr (StoredFactor ''rsi_14'' ''technical'')"
  using factor_name_parsing [of "''technical.rsi_14''"] factor_name_parsing [of "''rsi_14''"]
  by (simp add: resolve_str_def split_dot1_def full_name_def full_name_of_def)

section \<open>The constructor of Signal\<close>

lemma signal_factor_cases:
  "signal_factor (Str f) =
     (if CHR ''.'' \<in> set f
      then Inr (StoredFactor (tl (dropWhile (\<lambda>c. c \<noteq> CHR ''.'') f)) (takeWhile (\<lambda>c. c \<noteq> CHR ''.'') f))
      else Inl IndexError)"
  by (simp add: py_index_def split_dot1_def)

lemma signal_factor_list_error:
  "signal_factor_list fs = Inl e \<Longrightarrow> e = IndexError"
proof (induction fs arbitrary: e)
  case Nil then show ?case by simp
next
  case (Cons a fs)
  show ?case
  proof (cases a)
    case (Str f)
    with Cons show ?thesis
      by (auto simp: signal_factor_cases simp del: signal_factor.simps split: sum.splits if_splits)
  next
    case (Fac g)
    with Cons show ?thesis by (auto split: sum.splits)
  qed
qed

lemma signal_factor_list_fails:
  "Str f \<in> set fs \<Longrightarrow> CHR ''.'' \<notin> set f \<Longrightarrow> \<exists>e. signal_factor_list fs = Inl e"
  by (induction fs) (auto simp: signal_factor_cases simp del: signal_factor.simps split: sum.splits)

lemma signal_factor_list_ok:
  "(\<forall>f. Str f \<in> set fs \<longrightarrow> CHR ''.'' \<in> set f) \<Longrightarrow> \<exists>rs. signal_factor_list fs = Inr rs"
proof (induction fs)
  case Nil then show ?case by simp
next
  case (Cons a fs)
  then obtain rs where "signal_factor_list fs = Inr rs" by auto
  moreover have "\<exists>r. signal_factor a = Inr r"
    using Cons.prems by (cases a) (auto simp: signal_factor_cases simp del: signal_factor.simps(1))
  ultimately show ?case by auto
qed

text \<open>
  Claim C10.  The constructor of \<open>Signal\<close> raises \<open>IndexError\<close> as soon as one of its
  factors is a string without a dot, and accepts a list whose strings are all dotted;
  the same bare string is resolved to the category \<open>technical\<close> by \<open>get_factors\<close>.
\<close>

theorem Signal_init_undotted:
  "((\<exists>f. Str f \<in> set factors \<and> CHR ''.'' \<notin> set f) \<longrightarrow>
       Signal_init name factors condition = Inl IndexError)
   \<and> ((\<forall>f. Str f \<in> set factors \<longrightarrow> CHR ''.'' \<in> set f) \<longrightarrow>
       (\<exists>fs. Signal_init name factors condition =
          Inr \<lparr>signal_name = name, signal_factors = fs, signal_condition = condition\<rparr>))
   \<and> (CHR ''.'' \<notin> set f \<longrightarrow>
       signal_factor (Str f) = Inl IndexError
       \<and> resolve_spec (Str f) = Inr (StoredFactor f ''technical''))"
proof (intro conjI impI)
  assume "\<exists>f. Str f \<in> set factors \<and> CHR ''.'' \<notin> set f"
  then obtain e where "signal_factor_list factors = Inl e"
    using signal_factor_list_fails by blast
  then show "Signal_init name factors condition = Inl IndexError"
    using signal_factor_list_error by (auto simp: Signal_init_def)
next
  assume "\<forall>f. Str f \<in> set factors \<longrightarrow> CHR ''.'' \<in> set f"
  then obtain rs where "signal_factor_list factors = Inr rs"
    using signal_factor_list_ok by blast
  then show "\<exists>fs. Signal_init name factors condition =
          Inr \<lparr>signal_name = name, signal_factors = fs, signal_condition = condition\<rparr>"
    by (simp add: Signal_init_def)
next
  assume "CHR ''.'' \<notin> set f"
  then show "signal_factor (Str f) = Inl IndexError"
    by (simp add: signal_factor_cases del: signal_factor.simps)
next
  assume "CHR ''.'' \<notin> set f"
  then show "resolve_spec (Str f) = Inr (StoredFactor f ''technical'')"
    by (simp add: resolve_str_def)
qed

theorem Signal_init_undotted_witness:
  "Signal_init ''s'' [Str ''technical.rsi_14'', Str ''rsi_14''] (\<lambda>t. Inr []) = Inl IndexError
   \<and> (\<exists>fs. Signal_init ''s'' [Str ''technical.rsi_14'', Fac (StoredFactor ''close'' ''ohlcv'')]
            (\<lambda>t. Inr []) =
          Inr \<lparr>signal_name = ''s'', signal_factors = fs, signal_condition = (\<lambda>t. Inr [])\<rparr>)
   \<and> signal_factor (Str ''rsi_14'') = Inl IndexError
   \<and> resolve_spec (Str ''rsi_14'') = Inr (StoredFactor ''rsi_14'' ''technical'')"
proof -
  have bad: "\<exists>f. Str f \<in> set [Str ''technical.rsi_14'', Str ''rsi_14''] \<and> CHR ''.'' \<notin> set f"
    by (rule exI [of _ "''rsi_14''"]) simp
  have good: "\<forall>f. Str f \<in> set [Str ''technical.rsi_14'', Fac (StoredFactor ''close'' ''ohlcv'')]
                \<longrightarrow> CHR ''.'' \<in> set f"
    by simp
  have bare: "CHR ''.'' \<notin> set ''rsi_14''" by simp
  show ?thesis
    using Signal_init_undotted
            [of "[Str ''technical.rsi_14'', Str ''rsi_14'']" "''s''" "\<lambda>t. Inr []"
               "''rsi_14''"]
          Signal_init_undotted
            [of "[Str ''technical.rsi_14'', Fac (StoredFactor ''close'' ''ohlcv'')]" "''s''" "\<lambda>t. Inr []"
               "''rsi_14''"]
          bad good bare
    by blast
qed

section \<open>The loading loop\<close>

lemma load_loop_fails:
  "find (\<lambda>x. isl (load x)) ts = Some t \<Longrightarrow>
     load_loop load ts acc = Inl (DataLoadError ''OHLCV'' t)"
  by (induction ts arbitrary: acc) (auto split: sum.splits if_splits)

lemma load_loop_succeeds:
  "find (\<lambda>x. isl (load x)) ts = None \<Longrightarrow> \<exists>r. load_loop load ts acc = Inr r"
  by (induction ts arbitrary: acc) (auto split: sum.splits if_splits)

lemma find_isl_Some:
  "t \<in> set ts \<Longrightarrow> isl (load t) \<Longrightarrow> \<exists>t'. find (\<lambda>x. isl (load x)) ts = Some t'"
  by (cases "find (\<lambda>x. isl (load x)) ts") (auto simp: find_None_iff)

lemma set_update_subset: "set (AList.update k v al) \<subseteq> insert (k, v) (set al)"
  by (induction al) auto

lemma load_loop_result:
  "load_loop load ts acc = Inr r \<Longrightarrow> (\<And>p. p \<in> set acc \<Longrightarrow> load (fst p) = Inr (snd p)) \<Longrightarrow>
     fst ` set r = fst ` set acc \<union> set ts \<and> (\<forall>p. p \<in> set r \<longrightarrow> load (fst p) = Inr (snd p))"
proof (induction ts arbitrary: acc)
  case Nil
  then show ?case by auto
next
  case (Cons t ts)
  from Cons.prems(1) obtain df where df: "load t = Inr df"
    and rest: "load_loop load ts (AList.update t df acc) = Inr r"
    by (auto split: sum.splits)
  have inv: "\<And>p. p \<in> set (AList.update t df acc) \<Longrightarrow> load (fst p) = Inr (snd p)"
    using Cons.prems(2) df set_update_subset[of t df acc] by auto
  from Cons.IH[OF rest inv] show ?case
    by (auto simp: dom_update)
qed

section \<open>The unified date index\<close>

lemma set_unique [simp]: "set (unique xs) = set xs"
  by (induction xs rule: unique.induct) auto

lemma distinct_unique [simp]: "distinct (unique xs)"
  by (induction xs rule: unique.induct) auto

lemma unified_dates_result:
  "unified_dates idxs = Inr ds \<Longrightarrow>
     sorted ds \<and> distinct ds \<and> set ds = (\<Union>i \<in> set idxs. set i)"
  by (auto simp: unified_dates_def split: if_splits)

section \<open>Fail-fast loading\<close>

lemma load_ohlcv_unreadable:
  "files (ohlcv_path vq t) = NotFound \<or> files (ohlcv_path vq t) = Corrupt \<Longrightarrow>
     isl (load_ohlcv vq files cols t)"
  by (auto simp: load_ohlcv_def read_parquet_def)

lemma load_base_unreadable:
  "files (ohlcv_path vq t) = NotFound \<or> files (ohlcv_path vq t) = Corrupt \<Longrightarrow>
     isl (load_base vq files t)"
  by (auto simp: load_base_def read_parquet_def)

text \<open>
  Claim C5.  When the OHLCV resource of a requested ticker does not exist, is corrupt or
  otherwise fails to load, \<open>get_ohlcv\<close> raises \<open>DataLoadError\<close> naming the first ticker of
  the list that fails; no table is returned, whatever the other tickers hold.
\<close>

theorem get_ohlcv_fail_fast:
  assumes "ticker \<in> set tickers"
    and "files (ohlcv_path vq ticker) = NotFound \<or> files (ohlcv_path vq ticker) = Corrupt
           \<or> isl (load_ohlcv vq files cols ticker)"
  shows "\<exists>t. find (\<lambda>x. isl (load_ohlcv vq files cols x)) tickers = Some t
           \<and> get_ohlcv vq files tickers cols = Inl (DataLoadError ''OHLCV'' t)"
proof -
  from assms(2) have "isl (load_ohlcv vq files cols ticker)"
    using load_ohlcv_unreadable by blast
  with assms(1) obtain t where t: "find (\<lambda>x. isl (load_ohlcv vq files cols x)) tickers = Some t"
    using find_isl_Some by fast
  then have "load_loop (load_ohlcv vq files cols) tickers [] = Inl (DataLoadError ''OHLCV'' t)"
    by (rule load_loop_fails)
  then have "get_ohlcv vq files tickers cols = Inl (DataLoadError ''OHLCV'' t)"
    by (simp add: get_ohlcv_def)
  with t show ?thesis by blast
qed

text \<open>
  Ticker \<open>A\<close> loads, ticker \<open>C\<close> has no OHLCV resource: the call fails for \<open>C\<close>.
\<close>

theorem get_ohlcv_fail_fast_witness:
  "''C'' \<in> set [''A'', ''C'']
   \<and> example_files (ohlcv_path example_vq ''C'') = NotFound
   \<and> isl (load_ohlcv example_vq example_files [''close''] ''A'') = False
   \<and> get_ohlcv example_vq example_files [''A'', ''C''] [''close''] = Inl (DataLoadError ''OHLCV'' ''C'')"
proof -
  have m: "''C'' \<in> set [''A'', ''C'']" by simp
  have nf: "example_files (ohlcv_path example_vq ''C'') = NotFound" by code_simp
  have a: "isl (load_ohlcv example_vq example_files [''close''] ''A'') = False" by code_simp
  have f: "find (\<lambda>x. isl (load_ohlcv example_vq example_files [''close''] x)) [''A'', ''C'']
             = Some ''C''" by code_simp
  from get_ohlcv_fail_fast
         [where ticker = "''C''" and tickers = "[''A'', ''C'']" and files = example_files
            and vq = example_vq and cols = "[''close'']"] m nf f
  have "get_ohlcv example_vq example_files [''A'', ''C''] [''close'']
          = Inl (DataLoadError ''OHLCV'' ''C'')" by simp
  with m nf a show ?thesis by blast
qed

section \<open>get_factors: errors\<close>

lemma resolve_specs_total: "\<exists>rs. resolve_specs specs = Inr rs"
proof (induction specs)
  case Nil
  then show ?case by simp
next
  case (Cons a specs)
  have "\<exists>r. resolve_spec a = Inr r"
  proof (cases a)
    case (Str f)
    obtain nc where "resolve_str f = Inr nc" using resolve_str_total by blast
    with Str show ?thesis by (cases nc) simp
  next
    case (Fac g)
    then show ?thesis by simp
  qed
  with Cons show ?case by auto
qed

text \<open>
  Claim C9.  \<open>get_factors\<close> loads the OHLCV resource of every ticker before it fetches a
  factor: when that resource is missing or unreadable for some requested ticker, the call
  raises \<open>DataLoadError\<close> for the first such ticker, whatever the requested factors are.
\<close>

theorem get_factors_needs_ohlcv:
  assumes "ticker \<in> set tickers"
    and "files (ohlcv_path vq ticker) = NotFound \<or> files (ohlcv_path vq ticker) = Corrupt
           \<or> isl (load_base vq files ticker)"
  shows "\<exists>t. find (\<lambda>x. isl (load_base vq files x)) tickers = Some t
           \<and> get_factors vq files tickers factors = Inl (DataLoadError ''OHLCV'' t)"
proof -
  from assms(2) have "isl (load_base vq files ticker)"
    using load_base_unreadable by blast
  with assms(1) obtain t where t: "find (\<lambda>x. isl (load_base vq files x)) tickers = Some t"
    using find_isl_Some by fast
  then have l: "load_loop (load_base vq files) tickers [] = Inl (DataLoadError ''OHLCV'' t)"
    by (rule load_loop_fails)
  obtain rs where "resolve_specs factors = Inr rs"
    using resolve_specs_total by blast
  with l have "get_factors vq files tickers factors = Inl (DataLoadError ''OHLCV'' t)"
    by (simp add: get_factors_def get_factors_body_def)
  with t show ?thesis by blast
qed

text \<open>
  Ticker \<open>C\<close> has the stored factor \<open>technical.rsi_14\<close> and no OHLCV resource.
\<close>

theorem get_factors_needs_ohlcv_witness:
  "''C'' \<in> set [''C'']
   \<and> example_files (ohlcv_path example_vq ''C'') = NotFound
   \<and> fetch example_vq example_files (StoredFactor ''rsi_14'' ''technical'') ''C''
        = Inr [(Day 1, Val 40)]
   \<and> get_factors example_vq example_files [''C''] [Str ''technical.rsi_14'']
        = Inl (DataLoadError ''OHLCV'' ''C'')"
proof -
  have m: "''C'' \<in> set [''C'']" by simp
  have nf: "example_files (ohlcv_path example_vq ''C'') = NotFound" by code_simp
  have s: "fetch example_vq example_files (StoredFactor ''rsi_14'' ''technical'') ''C''
        = Inr [(Day 1, Val 40)]" by code_simp
  from get_factors_needs_ohlcv
         [where ticker = "''C''" and tickers = "[''C'']" and files = example_files
            and vq = example_vq and factors = "[Str ''technical.rsi_14'']"] m nf
  have "get_factors example_vq example_files [''C''] [Str ''technical.rsi_14'']
        = Inl (DataLoadError ''OHLCV'' ''C'')" by (auto split: if_splits)
  with m nf s show ?thesis by blast
qed

section \<open>get_factors: the row index\<close>

lemma get_factors_body_index:
  assumes "get_factors_body fname ffetch vq files tickers rs = Inr t"
  shows "sorted (windex t) \<and> distinct (windex t)
           \<and> set (windex t) = (\<Union>ticker \<in> set tickers. set (ohlcv_dates vq files ticker))"
proof -
  from assms obtain base ds cs
    where base: "load_loop (load_base vq files) tickers [] = Inr base"
      and ds: "unified_dates (map (\<lambda>p. idates (snd p)) base) = Inr ds"
      and t: "t = \<lparr>windex = ds, wcols = cs\<rparr>"
    by (auto simp: get_factors_body_def Let_def split: sum.splits)
  from load_loop_result [OF base]
  have keys: "fst ` set base = set tickers"
    and vals: "\<And>p. p \<in> set base \<Longrightarrow> load_base vq files (fst p) = Inr (snd p)"
    by auto
  have "(\<Union>i \<in> set (map (\<lambda>p. idates (snd p)) base). set i)
          = (\<Union>ticker \<in> set tickers. set (ohlcv_dates vq files ticker))"
  proof (intro equalityI subsetI)
    fix d assume "d \<in> (\<Union>i \<in> set (map (\<lambda>p. idates (snd p)) base). set i)"
    then obtain p where p: "p \<in> set base" "d \<in> set (idates (snd p))" by auto
    then have "fst p \<in> set tickers" "d \<in> set (ohlcv_dates vq files (fst p))"
      using keys vals [OF p(1)] by (auto simp: ohlcv_dates_def)
    then show "d \<in> (\<Union>ticker \<in> set tickers. set (ohlcv_dates vq files ticker))" by blast
  next
    fix d assume "d \<in> (\<Union>ticker \<in> set tickers. set (ohlcv_dates vq files ticker))"
    then obtain k where k: "k \<in> set tickers" "d \<in> set (ohlcv_dates vq files k)" by auto
    with keys have "k \<in> fst ` set base" by simp
    then obtain p where p: "p \<in> set base" "fst p = k" by auto
    with k vals [OF p(1)] have "d \<in> set (idates (snd p))" by (simp add: ohlcv_dates_def)
    with p show "d \<in> (\<Union>i \<in> set (map (\<lambda>p. idates (snd p)) base). set i)" by auto
  qed
  with unified_dates_result [OF ds] t show ?thesis by simp
qed

text \<open>
  Claim C3, as amended.  The row index of the table that \<open>get_factors\<close> returns is the
  ascending, duplicate-free union of the dates of the OHLCV resources of the requested
  tickers; the factor series do not contribute to it.
\<close>

theorem get_factors_index_is_ohlcv_union:
  assumes "get_factors vq files tickers factors = Inr t"
  shows "sorted (windex t) \<and> distinct (windex t)
           \<and> set (windex t) = (\<Union>ticker \<in> set tickers. set (ohlcv_dates vq files ticker))"
proof -
  from assms obtain rs
    where "get_factors_body full_name (fetch vq files) vq files tickers rs = Inr t"
    by (auto simp: get_factors_def split: sum.splits)
  then show ?thesis by (rule get_factors_body_index)
qed

text \<open>
  The stored \<open>close\<close> factor for the tickers \<open>A\<close> and \<open>B\<close>.
\<close>

theorem get_factors_index_is_ohlcv_union_witness:
  "get_factors example_vq example_files [''A'', ''B''] [Str ''ohlcv.close'']
     = Inr \<lparr>windex = [1, 2, 3],
            wcols = [((''ohlcv.close'', ''A''), [Val 12, Val 13, NaN]),
                     ((''ohlcv.close'', ''B''), [NaN, Val 22, Val 23])]\<rparr>
   \<and> ohlcv_dates example_vq example_files ''A'' = [1, 2]
   \<and> ohlcv_dates example_vq example_files ''B'' = [2, 3]
   \<and> set [1, 2, 3 :: int]
        = (\<Union>ticker \<in> set [''A'', ''B'']. set (ohlcv_dates example_vq example_files ticker))"
proof -
  have g: "get_factors example_vq example_files [''A'', ''B''] [Str ''ohlcv.close'']
     = Inr \<lparr>windex = [1, 2, 3],
            wcols = [((''ohlcv.close'', ''A''), [Val 12, Val 13, NaN]),
                     ((''ohlcv.close'', ''B''), [NaN, Val 22, Val 23])]\<rparr>"
    by code_simp
  have a: "ohlcv_dates example_vq example_files ''A'' = [1, 2]" by code_simp
  have b: "ohlcv_dates example_vq example_files ''B'' = [2, 3]" by code_simp
  from get_factors_index_is_ohlcv_union [OF g] have
    "set [1, 2, 3 :: int]
        = (\<Union>ticker \<in> set [''A'', ''B'']. set (ohlcv_dates example_vq example_files ticker))"
    by simp
  with g a b show ?thesis by blast
qed

text \<open>
  Claim C3, as stated, fails: the series fetched for \<open>technical.rsi_14\<close> and ticker \<open>B\<close>
  has the dates 2 and 5, the OHLCV resource of \<open>B\<close> the dates 2 and 3, and the returned
  index is 2, 3: the date 5 of the factor series is dropped.
\<close>

theorem get_factors_drops_factor_date:
  "get_factors example_vq example_files [''B''] [Str ''technical.rsi_14'']
     = Inr \<lparr>windex = [2, 3], wcols = [((''technical.rsi_14'', ''B''), [Val 50, NaN])]\<rparr>
   \<and> fetch example_vq example_files (StoredFactor ''rsi_14'' ''technical'') ''B''
       = Inr [(Day 2, Val 50), (Day 5, Val 55)]"
  by code_simp

section \<open>The column labels\<close>

lemma from_product_product: "from_product xs ys = List.product xs ys"
  by (induction xs) (simp_all add: from_product_def)

lemma set_from_product: "set (from_product xs ys) = set xs \<times> set ys"
  by (simp add: from_product_product)








section \<open>Two defects at concrete inputs\<close>

text \<open>
  The row index of \<open>get_ohlcv\<close> is the ascending, duplicate-free union of the dates of the
  loaded resources.
\<close>

lemma get_ohlcv_index:
  assumes "get_ohlcv vq files tickers cols = Inr t"
  shows "sorted (windex t) \<and> distinct (windex t)
           \<and> set (windex t)
               = (\<Union>ticker \<in> set tickers.
                    set (case load_ohlcv vq files cols ticker of
                           Inl e \<Rightarrow> [] | Inr df \<Rightarrow> idates df))"
proof -
  from assms obtain result ds
    where result: "load_loop (load_ohlcv vq files cols) tickers [] = Inr result"
      and ds: "unified_dates (map (\<lambda>p. idates (snd p)) result) = Inr ds"
      and t: "windex t = ds"
    by (auto simp: get_ohlcv_def split: sum.splits)
  from load_loop_result [OF result]
  have keys: "fst ` set result = set tickers"
    and vals: "\<And>p. p \<in> set result \<Longrightarrow> load_ohlcv vq files cols (fst p) = Inr (snd p)"
    by auto
  have "(\<Union>i \<in> set (map (\<lambda>p. idates (snd p)) result). set i)
          = (\<Union>ticker \<in> set tickers.
               set (case load_ohlcv vq files cols ticker of Inl e \<Rightarrow> [] | Inr df \<Rightarrow> idates df))"
    (is "?L = ?R")
  proof (intro equalityI subsetI)
    fix d assume "d \<in> ?L"
    then obtain p where p: "p \<in> set result" "d \<in> set (idates (snd p))" by auto
    then have "fst p \<in> set tickers"
      and "d \<in> set (case load_ohlcv vq files cols (fst p) of Inl e \<Rightarrow> [] | Inr df \<Rightarrow> idates df)"
      using keys vals [OF p(1)] by auto
    then show "d \<in> ?R" by blast
  next
    fix d assume "d \<in> ?R"
    then obtain k where k: "k \<in> set tickers"
      "d \<in> set (case load_ohlcv vq files cols k of Inl e \<Rightarrow> [] | Inr df \<Rightarrow> idates df)"
      by auto
    with keys have "k \<in> fst ` set result" by simp
    then obtain p where p: "p \<in> set result" "fst p = k" by auto
    with k vals [OF p(1)] have "d \<in> set (idates (snd p))" by simp
    with p show "d \<in> ?L" by auto
  qed
  with unified_dates_result [OF ds] t show ?thesis by simp
qed

text \<open>
  Claim C1 at two tickers and two fields.  The row index is the union 1, 2, 3.  The columns
  are filled ticker by ticker and then relabelled by position with the field-major
  product, so the column labelled (\<open>open\<close>, \<open>B\<close>) holds the \<open>close\<close> values of \<open>A\<close>: at
  the date 1, which the resource of \<open>B\<close> lacks, its cell is 12 and not the missing marker.
  With the single field \<open>close\<close> the two orders coincide and the cells are in place.
\<close>

theorem get_ohlcv_mislabels_columns:
  "get_ohlcv example_vq example_files [''A'', ''B''] [''open'', ''close'']
     = Inr \<lparr>windex = [1, 2, 3],
            wcols = [((''open'', ''A''), [Val 10, Val 11, NaN]),
                     ((''open'', ''B''), [Val 12, Val 13, NaN]),
                     ((''close'', ''A''), [NaN, Val 20, Val 21]),
                     ((''close'', ''B''), [NaN, Val 22, Val 23])]\<rparr>
   \<and> ohlcv_dates example_vq example_files ''A'' = [1, 2]
   \<and> ohlcv_dates example_vq example_files ''B'' = [2, 3]
   \<and> get_ohlcv example_vq example_files [''A'', ''B''] [''close'']
     = Inr \<lparr>windex = [1, 2, 3],
            wcols = [((''close'', ''A''), [Val 12, Val 13, NaN]),
                     ((''close'', ''B''), [NaN, Val 22, Val 23])]\<rparr>"
  by code_simp

text \<open>
  Claim C2 at a corrupt factor resource.  \<open>StoredFactor.fetch\<close> raises \<open>DataLoadError\<close>,
  and \<open>get_factors\<close> raises it again as \<open>FactorNotFoundError\<close>.
\<close>

theorem get_factors_retypes_load_error:
  "StoredFactor_fetch example_vq example_files ''rsi_14'' ''technical'' ''A''
     = Inl (DataLoadError ''technical.rsi_14'' ''A'')
   \<and> get_factors example_vq example_files [''A''] [Str ''technical.rsi_14'']
     = Inl (FactorNotFoundError ''technical.rsi_14'' ''A'')"
  by code_simp

section \<open>The incremental merge\<close>

lemma latest_None: "latest d xs = None \<longleftrightarrow> d \<notin> fst ` set xs"
  by (induction xs) (auto split: option.splits)

lemma latest_append:
  "latest d (xs @ ys) = (case latest d ys of Some x \<Rightarrow> Some x | None \<Rightarrow> latest d xs)"
  by (induction xs) (auto split: option.splits)

lemma latest_map:
  "latest d (map (\<lambda>r. (fst r, g (fst r) (snd r))) xs) = map_option (g d) (latest d xs)"
  by (induction xs) (auto split: option.splits)

lemma latest_filter:
  "latest d (filter (\<lambda>r. P (fst r)) xs) = (if P d then latest d xs else None)"
  by (induction xs) (auto split: option.splits)

lemma dedup_last_keys: "fst ` set (dedup_last xs) = fst ` set xs"
  by (induction xs) auto

lemma dedup_last_distinct: "distinct (map fst (dedup_last xs))"
  by (induction xs) (auto simp: dedup_last_keys)

lemma dedup_last_latest: "(d, m) \<in> set (dedup_last xs) \<Longrightarrow> latest d xs = Some m"
proof (induction xs)
  case Nil
  then show ?case by simp
next
  case (Cons r xs)
  show ?case
  proof (cases "fst r \<in> fst ` set xs")
    case True
    with Cons show ?thesis by (auto split: option.splits)
  next
    case False
    with Cons.prems have "(d, m) = r \<or> (d, m) \<in> set (dedup_last xs)" by auto
    then show ?thesis
    proof
      assume r: "(d, m) = r"
      then have "fst r = d" by auto
      with False have "d \<notin> fst ` set xs" by simp
      then have "latest d xs = None" by (simp only: latest_None not_False_eq_True)
      with r show ?thesis by auto
    next
      assume "(d, m) \<in> set (dedup_last xs)"
      with Cons.IH show ?thesis by simp
    qed
  qed
qed

lemma dedup_last_id: "distinct (map fst xs) \<Longrightarrow> dedup_last xs = xs"
  by (induction xs) auto

lemma map_add_twice: "(m ++ n) ++ n = m ++ n"
  by (rule ext) (simp add: map_add_def split: option.splits)

lemma map_add_self: "n ++ n = n"
  by (rule ext) (simp add: map_add_def split: option.splits)

lemma upsert_keys: "fst ` set (upsert ex nd) = fst ` set ex \<union> fst ` set nd"
proof -
  have "fst ` set (upsert ex nd)
          = fst ` set ex \<union> fst ` {r \<in> set nd. fst r \<notin> fst ` set ex}"
    by (simp add: upsert_def image_Un image_image)
  also have "\<dots> = fst ` set ex \<union> fst ` set nd" by blast
  finally show ?thesis .
qed

lemma latest_upsert:
  "latest d (upsert ex nd) =
     (if d \<in> fst ` set ex
      then map_option (\<lambda>m. case latest d nd of None \<Rightarrow> m | Some n \<Rightarrow> m ++ n) (latest d ex)
      else latest d nd)"
proof -
  have "latest d (map (\<lambda>r. (fst r, case latest (fst r) nd of None \<Rightarrow> snd r | Some n \<Rightarrow> snd r ++ n)) ex)
          = map_option (\<lambda>m. case latest d nd of None \<Rightarrow> m | Some n \<Rightarrow> m ++ n) (latest d ex)"
    using latest_map [of d "\<lambda>k m. case latest k nd of None \<Rightarrow> m | Some n \<Rightarrow> m ++ n" ex]
    by simp
  moreover have "latest d (filter (\<lambda>r. fst r \<notin> fst ` set ex) nd)
          = (if d \<notin> fst ` set ex then latest d nd else None)"
    by (rule latest_filter)
  moreover have "latest d ex = None" if "d \<notin> fst ` set ex"
    using that by (simp add: latest_None)
  ultimately show ?thesis
    by (auto simp: upsert_def latest_append split: option.splits)
qed

lemma upsert_absorbs:
  assumes "(d, m) \<in> set (dedup_last (upsert ex nd))" and "latest d nd = Some n"
  shows "m ++ n = m"
proof -
  from assms(1) have l: "latest d (upsert ex nd) = Some m" by (rule dedup_last_latest)
  show ?thesis
  proof (cases "d \<in> fst ` set ex")
    case True
    with l assms(2) obtain e where "m = e ++ n"
      by (auto simp: latest_upsert)
    then show ?thesis by (simp add: map_add_twice)
  next
    case False
    with l assms(2) have "m = n" by (simp add: latest_upsert)
    then show ?thesis by (simp add: map_add_self)
  qed
qed

lemma upsert_fixed:
  assumes keys: "fst ` set nd \<subseteq> fst ` set R"
    and absorbed: "\<And>d m n. (d, m) \<in> set R \<Longrightarrow> latest d nd = Some n \<Longrightarrow> m ++ n = m"
  shows "upsert R nd = R"
proof -
  have "(fst r, case latest (fst r) nd of None \<Rightarrow> snd r | Some n \<Rightarrow> snd r ++ n) = r"
    if "r \<in> set R" for r
    using that absorbed [of "fst r" "snd r"] by (cases r) (auto split: option.splits)
  then have "map (\<lambda>r. (fst r, case latest (fst r) nd of None \<Rightarrow> snd r | Some n \<Rightarrow> snd r ++ n)) R = R"
    by (simp add: map_idI)
  moreover have "filter (\<lambda>r. fst r \<notin> fst ` set R) nd = []"
    using keys by (auto simp: filter_empty_conv)
  ultimately show ?thesis by (simp add: upsert_def)
qed

lemma merged_sorted_distinct:
  "sorted (map fst (sort_key fst (dedup_last xs)))
   \<and> distinct (map fst (sort_key fst (dedup_last xs)))"
proof -
  have "distinct (map fst (sort_key fst (dedup_last xs))) = distinct (map fst (dedup_last xs))"
    by (simp add: distinct_map)
  then show ?thesis by (simp add: dedup_last_distinct)
qed

text \<open>
  Claim C4.  Saving the same new data a second time into an existing record set leaves the
  content of the first save unchanged; that content is sorted ascending by date, has one
  row per date, and its dates are those of the existing content and of the new data.
\<close>

theorem save_factor_idempotent:
  "save_factor newData (save_factor newData (Some existing)) = save_factor newData (Some existing)
   \<and> (\<exists>merged. save_factor newData (Some existing) = Some merged
         \<and> sorted (map fst merged) \<and> distinct (map fst merged)
         \<and> fst ` set merged = fst ` set existing \<union> fst ` set newData)"
proof -
  let ?R = "sort_key fst (dedup_last (upsert existing newData))"
  have sd: "sorted (map fst ?R)" "distinct (map fst ?R)"
    using merged_sorted_distinct by blast+
  have keys: "fst ` set ?R = fst ` set existing \<union> fst ` set newData"
    by (simp add: dedup_last_keys upsert_keys)
  have "upsert ?R newData = ?R"
  proof (rule upsert_fixed)
    show "fst ` set newData \<subseteq> fst ` set ?R" using keys by blast
  next
    fix d m n
    assume "(d, m) \<in> set ?R" and "latest d newData = Some n"
    then show "m ++ n = m" using upsert_absorbs [of d m existing newData n] by simp
  qed
  moreover have "dedup_last ?R = ?R" using sd(2) by (rule dedup_last_id)
  moreover have "sort_key fst ?R = ?R" using sd(1) by (rule sort_key_id_if_sorted)
  ultimately have "save_factor newData (Some ?R) = Some ?R"
    by (simp add: save_factor_def)
  with sd keys show ?thesis by (simp add: save_factor_def)
qed

text \<open>
  The data of \<open>test_save_factor_existing_file\<close>, with the values 0.5, 0.6, 0.7, 0.8 written
  as 5, 6, 7, 8: the overlapping date 2 takes the new value.
\<close>

theorem save_factor_idempotent_witness:
  "save_factor [(2, [''volatility_20'' \<mapsto> Val 7]), (3, [''volatility_20'' \<mapsto> Val 8])]
     (save_factor [(2, [''volatility_20'' \<mapsto> Val 7]), (3, [''volatility_20'' \<mapsto> Val 8])]
        (Some [(1, [''volatility_20'' \<mapsto> Val 5]), (2, [''volatility_20'' \<mapsto> Val 6])]))
   = save_factor [(2, [''volatility_20'' \<mapsto> Val 7]), (3, [''volatility_20'' \<mapsto> Val 8])]
       (Some [(1, [''volatility_20'' \<mapsto> Val 5]), (2, [''volatility_20'' \<mapsto> Val 6])])
   \<and> (case save_factor [(2, [''volatility_20'' \<mapsto> Val 7]), (3, [''volatility_20'' \<mapsto> Val 8])]
              (Some [(1, [''volatility_20'' \<mapsto> Val 5]), (2, [''volatility_20'' \<mapsto> Val 6])]) of
         None \<Rightarrow> []
       | Some merged \<Rightarrow> map (\<lambda>r. (fst r, snd r ''volatility_20'')) merged)
      = [(1, Some (Val 5)), (2, Some (Val 7)), (3, Some (Val 8))]"
proof -
  have "(case save_factor [(2, [''volatility_20'' \<mapsto> Val 7]), (3, [''volatility_20'' \<mapsto> Val 8])]
              (Some [(1, [''volatility_20'' \<mapsto> Val 5]), (2, [''volatility_20'' \<mapsto> Val 6])]) of
         None \<Rightarrow> []
       | Some merged \<Rightarrow> map (\<lambda>r. (fst r, snd r ''volatility_20'')) merged)
      = [(1, Some (Val 5)), (2, Some (Val 7)), (3, Some (Val 8))]"
    by code_simp
  with save_factor_idempotent
         [of "[(2, [''volatility_20'' \<mapsto> Val 7]), (3, [''volatility_20'' \<mapsto> Val 8])]"
             "[(1, [''volatility_20'' \<mapsto> Val 5]), (2, [''volatility_20'' \<mapsto> Val 6])]"]
  show ?thesis by blast
qed

section \<open>Computed factors\<close>

text \<open>
  \<open>get_factors\<close> on a list of strings is \<open>get_factors_strs\<close>: this is the call that
  \<open>ComputedFactor.fetch\<close> makes.
\<close>

lemma resolve_specs_Str:
  "resolve_specs (map Str strs) =
     (case resolve_strs strs of
        Inl e \<Rightarrow> Inl e
      | Inr rs \<Rightarrow> Inr (map (\<lambda>nc. StoredFactor (fst nc) (snd nc)) rs))"
  by (induction strs) (auto split: sum.splits)

lemma fetch_loop_map:
  "fetch_loop fname ffetch ds t (map g fs) acc =
     fetch_loop (\<lambda>f. fname (g f)) (\<lambda>f. ffetch (g f)) ds t fs acc"
  by (induction fs arbitrary: acc) (auto split: sum.splits)

lemma ticker_loop_map:
  "ticker_loop fname ffetch base ds (map g fs) ts acc =
     ticker_loop (\<lambda>f. fname (g f)) (\<lambda>f. ffetch (g f)) base ds fs ts acc"
  by (induction ts arbitrary: acc) (auto simp: fetch_loop_map split: sum.splits option.splits)

lemma get_factors_body_map:
  "get_factors_body fname ffetch vq files tickers (map g rs) =
     get_factors_body (\<lambda>f. fname (g f)) (\<lambda>f. ffetch (g f)) vq files tickers rs"
  by (simp add: get_factors_body_def ticker_loop_map comp_def cong: sum.case_cong)

lemma get_factors_Str:
  "get_factors vq files tickers (map Str strs) = get_factors_strs vq files tickers strs"
proof (cases "resolve_strs strs")
  case (Inl e)
  then show ?thesis by (simp add: get_factors_def get_factors_strs_def resolve_specs_Str)
next
  case (Inr rs)
  have n: "(\<lambda>f. full_name (StoredFactor (fst f) (snd f))) = stored_full_name"
    by (rule ext) (simp add: full_name_def stored_full_name_def)
  have f: "(\<lambda>f. fetch vq files (StoredFactor (fst f) (snd f)))
             = (\<lambda>nc. StoredFactor_fetch vq files (fst nc) (snd nc))"
    by (intro ext) simp
  from Inr show ?thesis
    by (simp add: get_factors_def get_factors_strs_def resolve_specs_Str get_factors_body_map n f)
qed

lemma fetch_loop_cong:
  "(\<And>f. ffetch f t = ffetch' f t) \<Longrightarrow>
     fetch_loop fname ffetch ds t fs acc = fetch_loop fname ffetch' ds t fs acc"
  by (induction fs arbitrary: acc) (auto split: sum.splits)

lemma get_factors_body_single_cong:
  assumes "load_base vq files t = load_base vq files' t"
    and "\<And>f. ffetch f t = ffetch' f t"
  shows "get_factors_body fname ffetch vq files [t] rs =
           get_factors_body fname ffetch' vq files' [t] rs"
  using assms(1) fetch_loop_cong [of ffetch t ffetch', OF assms(2)]
  by (simp add: get_factors_body_def cong: sum.case_cong option.case_cong)

lemma get_factors_strs_local:
  assumes "\<And>category name.
             files' (get_path vq (base_url vq) (market vq) t (timeframe vq) category name)
               = files (get_path vq (base_url vq) (market vq) t (timeframe vq) category name)"
  shows "get_factors_strs vq files' [t] deps = get_factors_strs vq files [t] deps"
proof -
  have b: "load_base vq files' t = load_base vq files t"
    using assms [of "''ohlcv''" "''ohlcv''"]
    by (simp add: load_base_def read_parquet_def ohlcv_path_def)
  have f: "StoredFactor_fetch vq files' n c t = StoredFactor_fetch vq files n c t" for n c
    using assms [of c n] by (simp add: StoredFactor_fetch_def read_parquet_def)
  show ?thesis
    unfolding get_factors_strs_def
    using get_factors_body_single_cong
            [of vq files' t files "\<lambda>nc ticker. StoredFactor_fetch vq files' (fst nc) (snd nc) ticker"
                "\<lambda>nc ticker. StoredFactor_fetch vq files (fst nc) (snd nc) ticker", OF b]
    by (simp add: f cong: sum.case_cong)
qed

lemma cell_at_Suc: "cell_at (x # xs) (Suc i) = cell_at xs i"
  by (simp add: cell_at_def)

lemma lookup_position:
  "(case position k (map fst s) of None \<Rightarrow> NaN | Some i \<Rightarrow> cell_at (map snd s) i)
     = (case map_of s k of None \<Rightarrow> NaN | Some v \<Rightarrow> v)"
proof (induction s)
  case Nil
  then show ?case by simp
next
  case (Cons p s)
  show ?case
  proof (cases "fst p = k")
    case True
    then show ?thesis by (cases p) (simp add: cell_at_def)
  next
    case False
    with Cons show ?thesis
      by (cases p) (auto simp: cell_at_Suc split: option.splits)
  qed
qed

lemma reindex_series_aligned:
  assumes "reindex_series s ds = Inr v"
  shows "distinct (map fst s)
         \<and> v = map (\<lambda>d. case map_of s (Day d) of None \<Rightarrow> NaN | Some x \<Rightarrow> x) ds"
  using assms
  by (auto simp: reindex_series_def reindex_col_def lookup_position split: if_splits)

lemma full_name_of_inj:
  assumes "CHR ''.'' \<notin> set c" "CHR ''.'' \<notin> set c'"
    and "full_name_of c n = full_name_of c' n'"
  shows "c = c' \<and> n = n'"
proof -
  have tw: "takeWhile (\<lambda>x. x \<noteq> CHR ''.'') (xs @ CHR ''.'' # ys) = xs"
    if "CHR ''.'' \<notin> set xs" for xs ys :: string
  proof -
    have "x \<noteq> CHR ''.''" if "x \<in> set xs" for x
      using that \<open>CHR ''.'' \<notin> set xs\<close> by auto
    then show ?thesis by (simp add: takeWhile_append2)
  qed
  from tw [OF assms(1), of n] tw [OF assms(2), of n'] have "c = c'" using assms(3) by (simp add: full_name_of_def)
  with assms(3) show ?thesis by (simp add: full_name_of_def)
qed

lemma resolve_str_no_dot:
  assumes "resolve_str f = Inr nc"
  shows "CHR ''.'' \<notin> set (snd nc)"
proof (cases "CHR ''.'' \<in> set f")
  case True
  then obtain c n where "split_dot1 f = [c, n]" "CHR ''.'' \<notin> set c"
    using split_dot1_dotted by blast
  with True assms show ?thesis by (auto simp: resolve_str_def)
next
  case False
  with assms show ?thesis by (auto simp: resolve_str_def)
qed

lemma resolve_strs_no_dot:
  "resolve_strs fs = Inr rs \<Longrightarrow> nc \<in> set rs \<Longrightarrow> CHR ''.'' \<notin> set (snd nc)"
proof (induction fs arbitrary: rs)
  case Nil
  then show ?case by simp
next
  case (Cons f fs)
  from Cons.prems(1) obtain r rs' where r: "resolve_str f = Inr r"
    and rs': "resolve_strs fs = Inr rs'" and rs: "rs = r # rs'"
    by (auto split: sum.splits)
  from Cons.prems(2) rs have "nc = r \<or> nc \<in> set rs'" by auto
  then show ?case
    using resolve_str_no_dot [OF r] Cons.IH [OF rs'] by blast
qed

lemma stored_full_name_inj:
  assumes "resolve_strs fs = Inr rs"
  shows "inj_on stored_full_name (set rs)"
proof (rule inj_onI)
  fix x y
  assume "x \<in> set rs" "y \<in> set rs" "stored_full_name x = stored_full_name y"
  then have "snd x = snd y \<and> fst x = fst y"
    using resolve_strs_no_dot [OF assms]
    by (intro full_name_of_inj) (auto simp: stored_full_name_def)
  then show "x = y" by (simp add: prod_eq_iff)
qed

lemma assign_col_map:
  assumes "inj_on fname (set all)" "f \<in> set all"
  shows "assign_col (fname f, t) v (map (\<lambda>g. ((fname g, t), cur g)) all)
           = map (\<lambda>g. ((fname g, t), (cur (f := v)) g)) all"
proof -
  have "(fname f, t) \<in> set (map fst (map (\<lambda>g. ((fname g, t), cur g)) all))"
    using assms(2) by (auto simp: image_iff)
  moreover have "(if fname g = fname f then ((fname f, t), v) else ((fname g, t), cur g))
                   = ((fname g, t), (cur (f := v)) g)" if "g \<in> set all" for g
    using that assms by (auto dest: inj_onD)
  ultimately show ?thesis
    by (simp add: assign_col_def comp_def cong: map_cong)
qed

lemma fetch_loop_table:
  assumes "fetch_loop fname ffetch ds t fs (map (\<lambda>g. ((fname g, t), cur g)) all) = Inr acc'"
    and "inj_on fname (set all)" and "set fs \<subseteq> set all"
  shows "\<exists>val. acc' = map (\<lambda>g. ((fname g, t), if g \<in> set fs then val g else cur g)) all
           \<and> (\<forall>g. g \<in> set fs \<longrightarrow>
                 (\<exists>s. ffetch g t = Inr s \<and> reindex_series s ds = Inr (val g)))"
  using assms
proof (induction fs arbitrary: cur)
  case Nil
  then show ?case by simp
next
  case (Cons f fs)
  from Cons.prems(1) obtain s v where s: "ffetch f t = Inr s"
    and v: "reindex_series s ds = Inr v"
    and rest: "fetch_loop fname ffetch ds t fs
                 (assign_col (fname f, t) v (map (\<lambda>g. ((fname g, t), cur g)) all)) = Inr acc'"
    by (auto split: sum.splits)
  have fin: "f \<in> set all" using Cons.prems(3) by simp
  from rest have rest': "fetch_loop fname ffetch ds t fs
                 (map (\<lambda>g. ((fname g, t), (cur (f := v)) g)) all) = Inr acc'"
    by (simp only: assign_col_map [OF Cons.prems(2) fin])
  from Cons.IH [OF rest' Cons.prems(2)] Cons.prems(3)
  obtain val where acc: "acc' = map (\<lambda>g. ((fname g, t),
                                   if g \<in> set fs then val g else (cur (f := v)) g)) all"
    and vals: "\<And>g. g \<in> set fs \<Longrightarrow> \<exists>s. ffetch g t = Inr s \<and> reindex_series s ds = Inr (val g)"
    by auto
  let ?val = "\<lambda>g. if g \<in> set fs then val g else v"
  have "acc' = map (\<lambda>g. ((fname g, t), if g \<in> set (f # fs) then ?val g else cur g)) all"
    unfolding acc by (rule map_cong) auto
  moreover have "\<exists>s. ffetch g t = Inr s \<and> reindex_series s ds = Inr (?val g)"
    if "g \<in> set (f # fs)" for g
    using that vals s v by auto
  ultimately show ?case by (intro exI [of _ ?val]) blast
qed

lemma get_factors_body_single:
  assumes "get_factors_body fname ffetch vq files [t] rs = Inr tbl"
    and "inj_on fname (set rs)"
  shows "list_all2
           (\<lambda>f col. \<exists>s. ffetch f t = Inr s \<and> distinct (map fst s)
                \<and> col = ((fname f, t),
                         map (\<lambda>d. case map_of s (Day d) of None \<Rightarrow> NaN | Some x \<Rightarrow> x)
                           (windex tbl)))
           rs (wcols tbl)"
proof -
  from assms(1) obtain ds cs
    where loop: "fetch_loop fname ffetch ds t rs
                   (map (\<lambda>k. (k, replicate (length ds) NaN)) (from_product (map fname rs) [t]))
                 = Inr cs"
      and tbl: "tbl = \<lparr>windex = ds, wcols = cs\<rparr>"
    by (auto simp: get_factors_body_def Let_def split: sum.splits option.splits)
  have init: "map (\<lambda>k. (k, replicate (length ds) NaN)) (from_product (map fname rs) [t])
                = map (\<lambda>g. ((fname g, t), replicate (length ds) NaN)) rs"
    by (simp add: from_product_def comp_def)
  from fetch_loop_table [OF loop [unfolded init] assms(2)]
  obtain val where cs: "cs = map (\<lambda>g. ((fname g, t), val g)) rs"
    and vals: "\<And>g. g \<in> set rs \<Longrightarrow> \<exists>s. ffetch g t = Inr s \<and> reindex_series s ds = Inr (val g)"
    by (auto cong: map_cong)
  have "list_all2
           (\<lambda>f col. \<exists>s. ffetch f t = Inr s \<and> distinct (map fst s)
                \<and> col = ((fname f, t),
                         map (\<lambda>d. case map_of s (Day d) of None \<Rightarrow> NaN | Some x \<Rightarrow> x) ds))
           rs (map (\<lambda>g. ((fname g, t), val g)) rs)"
    unfolding list_all2_map2
  proof (rule list_all2_same [THEN iffD2], intro ballI)
    fix g assume "g \<in> set rs"
    from vals [OF this] obtain s where "ffetch g t = Inr s" "reindex_series s ds = Inr (val g)"
      by blast
    with reindex_series_aligned [OF this(2)]
    show "\<exists>s. ffetch g t = Inr s \<and> distinct (map fst s)
            \<and> ((fname g, t), val g)
                = ((fname g, t),
                   map (\<lambda>d. case map_of s (Day d) of None \<Rightarrow> NaN | Some x \<Rightarrow> x) ds)"
      by auto
  qed
  with cs tbl show ?thesis by simp
qed

text \<open>
  The table that \<open>get_factors\<close> builds for one ticker from a list of strings: one column
  per resolved factor, in order, holding the fetched series aligned on the row index.
\<close>

lemma get_factors_strs_table:
  assumes "get_factors_strs vq files [t] deps = Inr dep_data"
  shows "(\<exists>rs. resolve_strs deps = Inr rs
            \<and> list_all2
                (\<lambda>nc col. \<exists>s. StoredFactor_fetch vq files (fst nc) (snd nc) t = Inr s
                     \<and> distinct (map fst s)
                     \<and> col = ((stored_full_name nc, t),
                              map (\<lambda>d. case map_of s (Day d) of None \<Rightarrow> NaN | Some x \<Rightarrow> x)
                                (windex dep_data)))
                rs (wcols dep_data))
         \<and> sorted (windex dep_data) \<and> distinct (windex dep_data)
         \<and> set (windex dep_data) = set (ohlcv_dates vq files t)"
proof -
  from assms obtain rs where rs: "resolve_strs deps = Inr rs"
    and b: "get_factors_body stored_full_name
              (\<lambda>nc ticker. StoredFactor_fetch vq files (fst nc) (snd nc) ticker)
              vq files [t] rs = Inr dep_data"
    by (auto simp: get_factors_strs_def split: sum.splits)
  from get_factors_body_single [OF b stored_full_name_inj [OF rs]]
  have "list_all2
          (\<lambda>nc col. \<exists>s. StoredFactor_fetch vq files (fst nc) (snd nc) t = Inr s
               \<and> distinct (map fst s)
               \<and> col = ((stored_full_name nc, t),
                        map (\<lambda>d. case map_of s (Day d) of None \<Rightarrow> NaN | Some x \<Rightarrow> x)
                          (windex dep_data)))
          rs (wcols dep_data)" .
  moreover from get_factors_body_index [OF b]
  have "sorted (windex dep_data)" "distinct (windex dep_data)"
    "set (windex dep_data) = set (ohlcv_dates vq files t)"
    by simp_all
  ultimately show ?thesis using rs by blast
qed

lemma get_factors_strs_fetched:
  assumes "get_factors_strs vq files [t] deps = Inr dep_data"
    and "resolve_strs deps = Inr rs" and "nc \<in> set rs"
  shows "\<exists>s. StoredFactor_fetch vq files (fst nc) (snd nc) t = Inr s"
proof -
  from get_factors_strs_table [OF assms(1)] assms(2)
  have l: "list_all2
          (\<lambda>nc col. \<exists>s. StoredFactor_fetch vq files (fst nc) (snd nc) t = Inr s
               \<and> distinct (map fst s)
               \<and> col = ((stored_full_name nc, t),
                        map (\<lambda>d. case map_of s (Day d) of None \<Rightarrow> NaN | Some x \<Rightarrow> x)
                          (windex dep_data)))
          rs (wcols dep_data)"
    by auto
  from assms(3) obtain i where i: "i < length rs" "rs ! i = nc"
    by (auto simp: in_set_conv_nth)
  from list_all2_nthD [OF l i(1)] i(2) show ?thesis by auto
qed

text \<open>
  Claim C8.  A computed factor built without dependencies (or with an empty list) depends
  on \<open>ohlcv.close\<close>, and keeps a non-empty list as given.  Its \<open>fetch\<close> for a ticker calls
  \<open>get_factors\<close> for that one ticker on all its dependencies and applies the transform to
  the table that call returns.  That table has one column per dependency, in order,
  labelled with the dependency's full name and the ticker, and holding the series fetched
  for that dependency and that ticker, aligned on the dates of the ticker's OHLCV resource
  (the missing marker where the series has no value).  When a dependency cannot be
  fetched, \<open>fetch\<close> fails with an error that does not depend on the transform: the
  transform is not run.  The result depends on the resources of that ticker only.
\<close>

theorem ComputedFactor_fetch_resolves_dependencies:
  "ComputedFactor_init name category fn None = ComputedFactor name category fn [''ohlcv.close'']
   \<and> ComputedFactor_init name category fn (Some [])
       = ComputedFactor name category fn [''ohlcv.close'']
   \<and> (deps \<noteq> [] \<longrightarrow>
        ComputedFactor_init name category fn (Some deps) = ComputedFactor name category fn deps)
   \<and> fetch vq files (ComputedFactor name category fn deps) ticker
       = (case get_factors vq files [ticker] (map Str deps) of
            Inl e \<Rightarrow> Inl e
          | Inr dep_data \<Rightarrow> fn dep_data)
   \<and> (get_factors vq files [ticker] (map Str deps) = Inr dep_data \<longrightarrow>
        (\<exists>rs. resolve_strs deps = Inr rs
            \<and> list_all2
                (\<lambda>nc col. \<exists>s. StoredFactor_fetch vq files (fst nc) (snd nc) ticker = Inr s
                     \<and> distinct (map fst s)
                     \<and> col = ((stored_full_name nc, ticker),
                              map (\<lambda>d. case map_of s (Day d) of None \<Rightarrow> NaN | Some x \<Rightarrow> x)
                                (windex dep_data)))
                rs (wcols dep_data))
        \<and> sorted (windex dep_data) \<and> distinct (windex dep_data)
        \<and> set (windex dep_data) = set (ohlcv_dates vq files ticker))
   \<and> (resolve_strs deps = Inr rs \<and> nc \<in> set rs
         \<and> isl (StoredFactor_fetch vq files (fst nc) (snd nc) ticker) \<longrightarrow>
        (\<exists>e. \<forall>fn'. fetch vq files (ComputedFactor name category fn' deps) ticker = Inl e))
   \<and> ((\<forall>category' name'.
          files' (get_path vq (base_url vq) (market vq) ticker (timeframe vq) category' name')
            = files (get_path vq (base_url vq) (market vq) ticker (timeframe vq) category' name'))
        \<longrightarrow> fetch vq files' (ComputedFactor name category fn deps) ticker
              = fetch vq files (ComputedFactor name category fn deps) ticker)"
proof (intro conjI impI)
  show "ComputedFactor_init name category fn None
          = ComputedFactor name category fn [''ohlcv.close'']"
    by (simp add: ComputedFactor_init_def)
next
  show "ComputedFactor_init name category fn (Some [])
          = ComputedFactor name category fn [''ohlcv.close'']"
    by (simp add: ComputedFactor_init_def)
next
  assume "deps \<noteq> []"
  then show "ComputedFactor_init name category fn (Some deps)
               = ComputedFactor name category fn deps"
    by (simp add: ComputedFactor_init_def)
next
  show "fetch vq files (ComputedFactor name category fn deps) ticker
       = (case get_factors vq files [ticker] (map Str deps) of
            Inl e \<Rightarrow> Inl e
          | Inr dep_data \<Rightarrow> fn dep_data)"
    by (simp add: get_factors_Str)
next
  assume "get_factors vq files [ticker] (map Str deps) = Inr dep_data"
  then have g: "get_factors_strs vq files [ticker] deps = Inr dep_data"
    by (simp add: get_factors_Str)
  from get_factors_strs_table [OF g]
  show "\<exists>rs. resolve_strs deps = Inr rs
            \<and> list_all2
                (\<lambda>nc col. \<exists>s. StoredFactor_fetch vq files (fst nc) (snd nc) ticker = Inr s
                     \<and> distinct (map fst s)
                     \<and> col = ((stored_full_name nc, ticker),
                              map (\<lambda>d. case map_of s (Day d) of None \<Rightarrow> NaN | Some x \<Rightarrow> x)
                                (windex dep_data)))
                rs (wcols dep_data)"
    and "sorted (windex dep_data)"
    and "distinct (windex dep_data)"
    and "set (windex dep_data) = set (ohlcv_dates vq files ticker)"
    by blast+
next
  assume a: "resolve_strs deps = Inr rs \<and> nc \<in> set rs
         \<and> isl (StoredFactor_fetch vq files (fst nc) (snd nc) ticker)"
  show "\<exists>e. \<forall>fn'. fetch vq files (ComputedFactor name category fn' deps) ticker = Inl e"
  proof (cases "get_factors_strs vq files [ticker] deps")
    case (Inl e)
    then show ?thesis by simp
  next
    case (Inr dep_data)
    from get_factors_strs_fetched [OF Inr] a
    obtain s where "StoredFactor_fetch vq files (fst nc) (snd nc) ticker = Inr s" by blast
    with a show ?thesis by simp
  qed
next
  assume "\<forall>category' name'.
          files' (get_path vq (base_url vq) (market vq) ticker (timeframe vq) category' name')
            = files (get_path vq (base_url vq) (market vq) ticker (timeframe vq) category' name')"
  then have "get_factors_strs vq files' [ticker] deps = get_factors_strs vq files [ticker] deps"
    by (intro get_factors_strs_local) simp
  then show "fetch vq files' (ComputedFactor name category fn deps) ticker
              = fetch vq files (ComputedFactor name category fn deps) ticker"
    by simp
qed

text \<open>
  Two dependencies for ticker \<open>B\<close>, one of them a bare string: the \<open>rsi_14\<close> series has the
  dates 2 and 5, the OHLCV resource the dates 2 and 3, so its column is 50 and the missing
  marker.  Removing the OHLCV resource of ticker \<open>A\<close> does not change the result.  For
  ticker \<open>A\<close> the \<open>rsi_14\<close> resource is corrupt and \<open>fetch\<close> fails whatever the transform.
\<close>

theorem ComputedFactor_fetch_resolves_dependencies_witness:
  "ComputedFactor_init ''momentum'' ''technical'' example_transform (Some [''ohlcv.close'', ''rsi_14''])
     = ComputedFactor ''momentum'' ''technical'' example_transform [''ohlcv.close'', ''rsi_14'']
   \<and> get_factors example_vq example_files [''B''] (map Str [''ohlcv.close'', ''rsi_14''])
     = Inr \<lparr>windex = [2, 3],
            wcols = [((''ohlcv.close'', ''B''), [Val 22, Val 23]),
                     ((''technical.rsi_14'', ''B''), [Val 50, NaN])]\<rparr>
   \<and> StoredFactor_fetch example_vq example_files ''rsi_14'' ''technical'' ''B''
       = Inr [(Day 2, Val 50), (Day 5, Val 55)]
   \<and> fetch example_vq example_files
        (ComputedFactor ''momentum'' ''technical'' example_transform [''ohlcv.close'', ''rsi_14''])
        ''B''
       = Inr [(Day 2, Val 50), (Day 3, NaN)]
   \<and> fetch example_vq
        (example_files (''gs/data/dim/vn/instrument/A/1d/ohlcv.parquet'' := NotFound))
        (ComputedFactor ''momentum'' ''technical'' example_transform [''ohlcv.close'', ''rsi_14''])
        ''B''
       = Inr [(Day 2, Val 50), (Day 3, NaN)]
   \<and> set [2, 3 :: int] = set (ohlcv_dates example_vq example_files ''B'')
   \<and> (\<forall>fn'. fetch example_vq example_files
              (ComputedFactor ''momentum'' ''technical'' fn' [''ohlcv.close'', ''rsi_14'']) ''A''
            = Inl (FactorNotFoundError ''technical.rsi_14'' ''A''))"
proof -
  let ?deps = "[''ohlcv.close'', ''rsi_14'']"
  let ?t = "\<lparr>windex = [2, 3],
            wcols = [((''ohlcv.close'', ''B''), [Val 22, Val 23]),
                     ((''technical.rsi_14'', ''B''), [Val 50, NaN])]\<rparr>"
  let ?files' = "example_files (''gs/data/dim/vn/instrument/A/1d/ohlcv.parquet'' := NotFound)"
  note at_B = ComputedFactor_fetch_resolves_dependencies
         [of "''momentum''" "''technical''" example_transform ?deps example_vq example_files
             "''B''" ?t "[(''close'', ''ohlcv''), (''rsi_14'', ''technical'')]"
             "(''rsi_14'', ''technical'')" ?files']
  note at_A = ComputedFactor_fetch_resolves_dependencies
         [of "''momentum''" "''technical''" example_transform ?deps example_vq example_files
             "''A''" ?t "[(''close'', ''ohlcv''), (''rsi_14'', ''technical'')]"
             "(''rsi_14'', ''technical'')" example_files]
  have init: "ComputedFactor_init ''momentum'' ''technical'' example_transform (Some ?deps)
     = ComputedFactor ''momentum'' ''technical'' example_transform ?deps"
    using at_B by simp
  have g: "get_factors example_vq example_files [''B''] (map Str ?deps) = Inr ?t"
    by code_simp
  have sf: "StoredFactor_fetch example_vq example_files ''rsi_14'' ''technical'' ''B''
       = Inr [(Day 2, Val 50), (Day 5, Val 55)]"
    by code_simp
  have tr: "example_transform ?t = Inr [(Day 2, Val 50), (Day 3, NaN)]"
    by code_simp
  have agree: "\<forall>category' name'.
      ?files' (get_path example_vq (base_url example_vq) (market example_vq) ''B''
                 (timeframe example_vq) category' name')
        = example_files (get_path example_vq (base_url example_vq) (market example_vq) ''B''
                 (timeframe example_vq) category' name')"
    by (simp add: example_vq_def DefaultStorageAdapter_get_path_def)
  from at_B g tr have f: "fetch example_vq example_files
        (ComputedFactor ''momentum'' ''technical'' example_transform ?deps) ''B''
       = Inr [(Day 2, Val 50), (Day 3, NaN)]"
    by simp
  from at_B agree f have f': "fetch example_vq ?files'
        (ComputedFactor ''momentum'' ''technical'' example_transform ?deps) ''B''
       = Inr [(Day 2, Val 50), (Day 3, NaN)]"
    by metis
  from at_B g have idx: "set [2, 3 :: int] = set (ohlcv_dates example_vq example_files ''B'')"
    by simp
  have rs: "resolve_strs ?deps = Inr [(''close'', ''ohlcv''), (''rsi_14'', ''technical'')]"
    by (simp add: resolve_str_def split_dot1_def)
  have bad: "isl (StoredFactor_fetch example_vq example_files
                    (fst (''rsi_14'', ''technical'')) (snd (''rsi_14'', ''technical'')) ''A'')"
    by code_simp
  have one: "fetch example_vq example_files
        (ComputedFactor ''momentum'' ''technical'' example_transform ?deps) ''A''
       = Inl (FactorNotFoundError ''technical.rsi_14'' ''A'')"
    by code_simp
  from at_A rs bad obtain e where
    e: "\<forall>fn'. fetch example_vq example_files
              (ComputedFactor ''momentum'' ''technical'' fn' ?deps) ''A'' = Inl e"
    by auto
  with one have "e = FactorNotFoundError ''technical.rsi_14'' ''A''" by auto
  with e have all: "\<forall>fn'. fetch example_vq example_files
              (ComputedFactor ''momentum'' ''technical'' fn' ?deps) ''A''
            = Inl (FactorNotFoundError ''technical.rsi_14'' ''A'')"
    by simp
  from init g sf f f' idx all show ?thesis by blast
qed

end
